theory Spec2Isabelle
  imports Main "HOL-Library.Word"
begin

section \<open>Data model\<close>

text \<open>
  The thread manager of \<^verbatim>\<open>ThreadManager.cpp\<close>: a pool of worker threads consuming a queue of
  tasks, every shared field guarded by one mutex. \<^verbatim>\<open>size_t\<close> is taken at 64 bits, so the
  counters wrap around as the C++ ones do. A shared pointer to a \<^verbatim>\<open>Runnable\<close> is a number
  (its identity), and so is an expire callback. A \<^verbatim>\<open>Thread\<close> object is a number too, the
  one of the OS thread it starts; a thread id is \<open>Some\<close> of that number, or \<open>None\<close> for the
  id that stands for no thread (\<^verbatim>\<open>std::thread::id()\<close>). Instants of the steady clock and
  durations are in milliseconds, and a critical section is taken to be instantaneous: the
  clock reads inside it return one instant.
\<close>

type_synonym size_t = "64 word"
type_synonym thread = nat
type_synonym id_t = "nat option"
type_synonym Runnable = nat
type_synonym ExpireCallback = nat
type_synonym time_point = int

text \<open>\<^verbatim>\<open>ThreadManager::STATE\<close> and \<^verbatim>\<open>ThreadManager::Task::STATE\<close>.\<close>

datatype STATE = UNINITIALIZED | STARTING | STARTED | JOINING | STOPPING | STOPPED

datatype Task_STATE = WAITING | EXECUTING | TIMEDOUT | COMPLETE

record Task =
  runnable :: Runnable
  task_state :: Task_STATE
  expireTime :: "time_point option"

record ThreadFactory =
  detached :: bool

text \<open>The three monitors of the manager; they share its mutex.\<close>

datatype Monitor = monitor | maxMonitor | workerMonitor

text \<open>
  What the manager does to its collaborators, in the order it does it: notifications of
  a monitor, calls of the expire callback, joins of worker threads.
\<close>

datatype effect =
    Notify Monitor
  | NotifyAll Monitor
  | Expire ExpireCallback Runnable
  | Join thread

text \<open>
  Every failure of the source is a \<^verbatim>\<open>throw std::exception()\<close>, with or without a message;
  dereferencing the null thread factory is kept apart.
\<close>

datatype error =
    std_exception
  | std_exception_what string
  | null_dereference

record Impl =
  workerCount :: size_t
  workerMaxCount :: size_t
  idleCount :: size_t
  pendingTaskCountMax :: size_t
  expiredCount :: size_t
  expireCallback :: "ExpireCallback option"
  state :: STATE
  threadFactory :: "ThreadFactory option"
  tasks :: "Task list"
  workers :: "thread set"
  deadWorkers :: "thread set"
  idMap :: "id_t \<rightharpoonup> thread"
  thread_detached :: "thread \<Rightarrow> bool"
  effects :: "effect list"

text \<open>
  The fields are those of the class, with two more: \<open>thread_detached\<close> is the flag
  \<^verbatim>\<open>detached_\<close> of the \<^verbatim>\<open>Thread\<close> objects that \<^verbatim>\<open>workers_\<close> points to, and \<open>effects\<close> is the log
  of what the manager has done to its collaborators. The constructor \<^verbatim>\<open>Impl()\<close>:
\<close>

definition Impl_new :: Impl where
  "Impl_new = \<lparr>workerCount = 0, workerMaxCount = 0, idleCount = 0, pendingTaskCountMax = 0,
     expiredCount = 0, expireCallback = None, state = UNINITIALIZED, threadFactory = None,
     tasks = [], workers = {}, deadWorkers = {}, idMap = Map.empty,
     thread_detached = (\<lambda>h. False), effects = []\<rparr>"

definition emit :: "effect \<Rightarrow> Impl \<Rightarrow> Impl" where
  "emit e s = s\<lparr>effects := effects s @ [e]\<rparr>"

text \<open>
  A piece of code that runs under the mutex ends in one of three ways: it returns, it
  throws, or it blocks in the \<^verbatim>\<open>wait\<close> of a monitor, which releases the mutex.
\<close>

datatype 'a seg = returns 'a | throws error | blocks

text \<open>
  What a blocked caller finds when its \<^verbatim>\<open>wait\<close> ends: whether the wait timed out, and the
  manager as the other threads have left it.
\<close>

datatype wake = wake bool Impl

text \<open>
  \<^verbatim>\<open>Monitor::wait(timeout)\<close>: a timeout of zero waits forever and returns cleanly; a positive
  one throws when it expires.
\<close>

definition Monitor_wait :: "int \<Rightarrow> bool \<Rightarrow> error option" where
  "Monitor_wait timeout timedout = (if timeout \<noteq> 0 \<and> timedout then Some std_exception else None)"

section \<open>Expiration sweep\<close>

text \<open>The test of the sweep and of the worker: the task has a deadline and it precedes now.\<close>

definition expired :: "time_point \<Rightarrow> Task \<Rightarrow> bool" where
  "expired now t = (case expireTime t of None \<Rightarrow> False | Some e \<Rightarrow> e < now)"

text \<open>
  The loop of \<^verbatim>\<open>removeExpired\<close>, with the iterator between the tasks already passed
  (\<open>pre\<close>) and those still to visit.
\<close>

fun removeExpired_from :: "bool \<Rightarrow> time_point \<Rightarrow> Task list \<Rightarrow> Task list \<Rightarrow> Impl \<Rightarrow> Impl" where
  "removeExpired_from justOne now pre [] s = s"
| "removeExpired_from justOne now pre (t # rest) s =
     (if expired now t then
        let s1 = (case expireCallback s of None \<Rightarrow> s | Some cb \<Rightarrow> emit (Expire cb (runnable t)) s);
            s2 = s1\<lparr>tasks := pre @ rest\<rparr>;
            s3 = s2\<lparr>expiredCount := expiredCount s2 + 1\<rparr>
        in if justOne then s3 else removeExpired_from justOne now pre rest s3
      else removeExpired_from justOne now (pre @ [t]) rest s)"

definition removeExpired :: "bool \<Rightarrow> time_point \<Rightarrow> Impl \<Rightarrow> Impl" where
  "removeExpired justOne now s =
     (if tasks s = [] then s else removeExpired_from justOne now [] (tasks s) s)"

definition removeExpiredTasks :: "time_point \<Rightarrow> Impl \<Rightarrow> Impl" where
  "removeExpiredTasks now s = removeExpired False now s"

text \<open>
  \<^verbatim>\<open>removeExpiredTasks\<close> takes no guard, so other threads can run their critical sections
  between two passes of its loop. One pass, with the iterator at position \<open>i\<close> of the queue
  as it then is: the result is the position for the next pass, or \<open>None\<close> at the end of
  the queue. The accesses of one pass are taken together.
\<close>

definition sweep_pass :: "time_point \<Rightarrow> nat \<Rightarrow> Impl \<Rightarrow> nat option \<times> Impl" where
  "sweep_pass now i s =
     (case drop i (tasks s) of
        [] \<Rightarrow> (None, s)
      | t # rest \<Rightarrow>
          if expired now t then
            let s1 = (case expireCallback s of None \<Rightarrow> s | Some cb \<Rightarrow> emit (Expire cb (runnable t)) s);
                s2 = s1\<lparr>tasks := take i (tasks s1) @ rest\<rparr>;
                s3 = s2\<lparr>expiredCount := expiredCount s2 + 1\<rparr>
            in (Some i, s3)
          else (Some (Suc i), s))"

text \<open>The passes of a sweep that no other thread comes across, at most \<open>k\<close> of them.\<close>

fun sweep_passes :: "nat \<Rightarrow> time_point \<Rightarrow> nat \<Rightarrow> Impl \<Rightarrow> Impl" where
  "sweep_passes 0 now i s = s"
| "sweep_passes (Suc k) now i s =
     (case sweep_pass now i s of
        (None, s') \<Rightarrow> s'
      | (Some j, s') \<Rightarrow> sweep_passes k now j s')"

section \<open>The mutex and its guard\<close>

text \<open>
  \<^verbatim>\<open>Mutex\<close> wraps the timed mutex of the C++ standard library. The mutex is described by
  how long its present holder keeps it: \<open>Some d\<close> when it is released after \<open>d\<close>
  milliseconds (\<open>Some 0\<close>: it is free), \<open>None\<close> when it is never released. \<^verbatim>\<open>lock\<close> returns
  once the mutex is free, if ever (the result is the time waited); \<^verbatim>\<open>trylock\<close> does not
  wait; \<^verbatim>\<open>timedlock\<close> waits up to its deadline, and reports whether it got the mutex and
  how long it took.
\<close>

type_synonym Mutex = "nat option"

definition Mutex_lock :: "Mutex \<Rightarrow> nat option" where
  "Mutex_lock m = m"

definition Mutex_trylock :: "Mutex \<Rightarrow> bool" where
  "Mutex_trylock m = (m = Some 0)"

definition Mutex_timedlock :: "Mutex \<Rightarrow> int \<Rightarrow> bool \<times> nat" where
  "Mutex_timedlock m milliseconds =
     (case m of
        None \<Rightarrow> (False, nat milliseconds)
      | Some d \<Rightarrow> if int d \<le> milliseconds then (True, d) else (False, nat milliseconds))"

text \<open>
  The constructor of \<^verbatim>\<open>Guard\<close> (Mutex.h): which primitive it calls depends on the sign of
  the timeout. The result is \<open>None\<close> when the constructor never returns, and otherwise
  the guard's \<^verbatim>\<open>operator bool\<close> with the time the constructor took.
\<close>

definition Guard :: "Mutex \<Rightarrow> int \<Rightarrow> (bool \<times> nat) option" where
  "Guard m timeout =
     (if timeout = 0 then
        (case Mutex_lock m of None \<Rightarrow> None | Some d \<Rightarrow> Some (True, d))
      else if timeout < 0 then Some (Mutex_trylock m, 0)
      else Some (Mutex_timedlock m timeout))"

section \<open>Submitting a task\<close>

text \<open>The constructor of \<^verbatim>\<open>Task\<close>: a deadline only for a nonzero expiration.\<close>

definition Task_new :: "Runnable \<Rightarrow> int \<Rightarrow> time_point \<Rightarrow> Task" where
  "Task_new r expiration now =
     \<lparr>runnable = r, task_state = WAITING,
      expireTime = (if expiration \<noteq> 0 then Some (now + expiration) else None)\<rparr>"

text \<open>
  The test \<^verbatim>\<open>pendingTaskCountMax_ > 0 && tasks_.size() >= pendingTaskCountMax_\<close>; the size of
  the deque is the length of the list.
\<close>

definition at_cap :: "Impl \<Rightarrow> bool" where
  "at_cap s = (0 < pendingTaskCountMax s \<and> unat (pendingTaskCountMax s) \<le> length (tasks s))"

text \<open>\<^verbatim>\<open>ThreadFactory::getCurrentThreadId\<close>, called by the thread \<open>caller\<close>.\<close>

definition getCurrentThreadId :: "thread \<Rightarrow> id_t" where
  "getCurrentThreadId caller = Some caller"

text \<open>
  \<^verbatim>\<open>canSleep\<close>: whether the id of the calling thread is no key of \<^verbatim>\<open>idMap_\<close>. It goes
  through the thread factory for the caller's id.
\<close>

definition canSleep :: "thread \<Rightarrow> Impl \<Rightarrow> error + bool" where
  "canSleep caller s =
     (case threadFactory s of
        None \<Rightarrow> Inl null_dereference
      | Some f \<Rightarrow> Inr (idMap s (getCurrentThreadId caller) = None))"

text \<open>The end of \<^verbatim>\<open>add\<close>: the push and the notification of an idle worker.\<close>

definition add_push :: "Runnable \<Rightarrow> int \<Rightarrow> time_point \<Rightarrow> Impl \<Rightarrow> Impl" where
  "add_push v expiration now s =
     (let s1 = s\<lparr>tasks := tasks s @ [Task_new v expiration now]\<rparr>
      in if 0 < idleCount s1 then emit (Notify monitor) s1 else s1)"

text \<open>The head of the loop that waits on \<^verbatim>\<open>maxMonitor_\<close>, and what follows the loop.\<close>

definition add_loop :: "Runnable \<Rightarrow> int \<Rightarrow> time_point \<Rightarrow> Impl \<Rightarrow> unit seg \<times> Impl" where
  "add_loop v expiration now s =
     (if at_cap s then (blocks, s) else (returns (), add_push v expiration now s))"

text \<open>\<^verbatim>\<open>add\<close> from the moment the guard holds the mutex to its first wait, or its end.\<close>

definition add_locked ::
    "Runnable \<Rightarrow> int \<Rightarrow> int \<Rightarrow> thread \<Rightarrow> time_point \<Rightarrow> Impl \<Rightarrow> unit seg \<times> Impl" where
  "add_locked v timeout expiration caller now s =
     (if state s \<noteq> STARTED then
        (throws (std_exception_what ''ThreadManager::Impl::add ThreadManager not started''), s)
      else
        let s1 = (if at_cap s then removeExpired True now s else s)
        in if at_cap s1 then
             (case canSleep caller s1 of
                Inl err \<Rightarrow> (throws err, s1)
              | Inr cs \<Rightarrow>
                  if cs \<and> 0 \<le> timeout then add_loop v expiration now s1
                  else (throws std_exception, s1))
           else (returns (), add_push v expiration now s1))"

text \<open>\<^verbatim>\<open>add\<close> when its wait on \<^verbatim>\<open>maxMonitor_\<close> ends.\<close>

definition add_woken ::
    "Runnable \<Rightarrow> int \<Rightarrow> int \<Rightarrow> bool \<Rightarrow> time_point \<Rightarrow> Impl \<Rightarrow> unit seg \<times> Impl" where
  "add_woken v timeout expiration timedout now s =
     (case Monitor_wait timeout timedout of
        Some err \<Rightarrow> (throws err, s)
      | None \<Rightarrow> add_loop v expiration now s)"

text \<open>
  A call seen from its caller: \<open>None\<close> when it never returns, otherwise the exception or
  the value, with the manager as the call leaves it. The waits of a call take their
  outcomes from a list; a call that still waits when the list is used up waits forever.
\<close>

type_synonym 'a outcome = "((error + 'a) \<times> Impl) option"

definition seg_outcome :: "'a seg \<times> Impl \<Rightarrow> 'a outcome \<Rightarrow> 'a outcome" where
  "seg_outcome r waiting =
     (case r of
        (returns a, s) \<Rightarrow> Some (Inr a, s)
      | (throws err, s) \<Rightarrow> Some (Inl err, s)
      | (blocks, s) \<Rightarrow> waiting)"

fun add_waiting :: "Runnable \<Rightarrow> int \<Rightarrow> int \<Rightarrow> (time_point \<times> wake) list \<Rightarrow> unit outcome" where
  "add_waiting v timeout expiration [] = None"
| "add_waiting v timeout expiration ((now, wake timedout s) # ws) =
     seg_outcome (add_woken v timeout expiration timedout now s)
       (add_waiting v timeout expiration ws)"

definition add ::
    "Runnable \<Rightarrow> int \<Rightarrow> int \<Rightarrow> Mutex \<Rightarrow> thread \<Rightarrow> time_point \<Rightarrow> (time_point \<times> wake) list \<Rightarrow>
     Impl \<Rightarrow> unit outcome" where
  "add v timeout expiration m caller now ws s =
     (case Guard m timeout of
        None \<Rightarrow> None
      | Some (acquired, d) \<Rightarrow>
          if \<not> acquired then Some (Inl std_exception, s)
          else seg_outcome (add_locked v timeout expiration caller now s)
                 (add_waiting v timeout expiration ws))"

section \<open>Lifecycle\<close>

text \<open>
  The operations below take the mutex with a plain \<^verbatim>\<open>Guard g(mutex_)\<close>, which waits until
  it has it; each is modelled from that moment on. The loop at the end of \<^verbatim>\<open>start\<close> waits
  on \<^verbatim>\<open>monitor_\<close> while the state is \<^verbatim>\<open>STARTING\<close>.
\<close>

definition start_loop :: "Impl \<Rightarrow> unit seg \<times> Impl" where
  "start_loop s = (if state s = STARTING then (blocks, s) else (returns (), s))"

definition start :: "Impl \<Rightarrow> unit seg \<times> Impl" where
  "start s =
     (if state s = STOPPED then (returns (), s)
      else if state s = UNINITIALIZED then
        (if threadFactory s = None then (throws std_exception, s)
         else start_loop (emit (NotifyAll monitor) (s\<lparr>state := STARTED\<rparr>)))
      else start_loop s)"

text \<open>The setter \<^verbatim>\<open>threadFactory(value)\<close>, for a factory that is not null.\<close>

definition setThreadFactory :: "ThreadFactory \<Rightarrow> Impl \<Rightarrow> unit seg \<times> Impl" where
  "setThreadFactory f s =
     (case threadFactory s of
        None \<Rightarrow> (returns (), s\<lparr>threadFactory := Some f\<rparr>)
      | Some g \<Rightarrow>
          if detached g \<noteq> detached f then (throws std_exception, s)
          else (returns (), s\<lparr>threadFactory := Some f\<rparr>))"

definition setPendingTaskCountMax :: "size_t \<Rightarrow> Impl \<Rightarrow> Impl" where
  "setPendingTaskCountMax n s = s\<lparr>pendingTaskCountMax := n\<rparr>"

definition setExpireCallback :: "ExpireCallback option \<Rightarrow> Impl \<Rightarrow> Impl" where
  "setExpireCallback cb s = s\<lparr>expireCallback := cb\<rparr>"

definition totalTaskCount :: "Impl \<Rightarrow> size_t" where
  "totalTaskCount s = of_nat (length (tasks s)) + workerCount s - idleCount s"

section \<open>Removing workers\<close>

text \<open>The loop that notifies \<^verbatim>\<open>monitor_\<close> once for each worker to remove.\<close>

fun notify_times :: "nat \<Rightarrow> Impl \<Rightarrow> Impl" where
  "notify_times 0 s = s"
| "notify_times (Suc k) s = notify_times k (emit (Notify monitor) s)"

text \<open>
  \<^verbatim>\<open>Thread::getId\<close> of a thread that has been started: the id of its \<^verbatim>\<open>std::thread\<close>, which
  is the id of no thread once that has been detached or joined.
\<close>

definition Thread_getId :: "bool \<Rightarrow> thread \<Rightarrow> id_t" where
  "Thread_getId gone h = (if gone then None else Some h)"

text \<open>
  The end of \<^verbatim>\<open>removeWorkersUnderLock\<close>, the loop over the dead workers in the order of
  their set: \<^verbatim>\<open>Thread::join\<close> is called when the factory is not detached, and joins the
  thread unless the thread is detached itself; then the key that \<^verbatim>\<open>getId\<close> gives leaves
  \<^verbatim>\<open>idMap_\<close>, and the thread leaves \<^verbatim>\<open>workers_\<close>.
\<close>

fun drain_workers :: "ThreadFactory \<Rightarrow> thread list \<Rightarrow> Impl \<Rightarrow> Impl" where
  "drain_workers f [] s = s"
| "drain_workers f (h # hs) s =
     (let s1 = (if \<not> detached f then emit (Join h) s else s);
          joined = (\<not> detached f \<and> \<not> thread_detached s h);
          key = Thread_getId (thread_detached s h \<or> joined) h
      in drain_workers f hs (s1\<lparr>idMap := (idMap s1)(key := None), workers := workers s1 - {h}\<rparr>))"

definition removeWorkers_drain :: "Impl \<Rightarrow> unit seg \<times> Impl" where
  "removeWorkers_drain s =
     (if deadWorkers s = {} then (returns (), s)
      else case threadFactory s of
        None \<Rightarrow> (throws null_dereference, s)
      | Some f \<Rightarrow>
          (returns (),
           (drain_workers f (sorted_list_of_set (deadWorkers s)) s)\<lparr>deadWorkers := {}\<rparr>))"

text \<open>The head of the loop that waits on \<^verbatim>\<open>workerMonitor_\<close>, and what follows the loop.\<close>

definition removeWorkers_loop :: "Impl \<Rightarrow> unit seg \<times> Impl" where
  "removeWorkers_loop s =
     (if workerCount s \<noteq> workerMaxCount s then (blocks, s) else removeWorkers_drain s)"

definition removeWorkersUnderLock :: "size_t \<Rightarrow> Impl \<Rightarrow> unit seg \<times> Impl" where
  "removeWorkersUnderLock n s =
     (if workerMaxCount s < n then (throws std_exception, s)
      else
        let s1 = s\<lparr>workerMaxCount := workerMaxCount s - n\<rparr>;
            s2 = (if n < idleCount s1 then notify_times (unat n) s1
                  else emit (NotifyAll monitor) s1)
        in removeWorkers_loop s2)"

fun removeWorkers_waiting :: "wake list \<Rightarrow> unit outcome" where
  "removeWorkers_waiting [] = None"
| "removeWorkers_waiting (wake timedout s # ws) =
     seg_outcome (removeWorkers_loop s) (removeWorkers_waiting ws)"

definition removeWorker :: "size_t \<Rightarrow> wake list \<Rightarrow> Impl \<Rightarrow> unit outcome" where
  "removeWorker n ws s = seg_outcome (removeWorkersUnderLock n s) (removeWorkers_waiting ws)"

text \<open>
  \<^verbatim>\<open>stop\<close>: what it does once \<^verbatim>\<open>removeWorkersUnderLock\<close> is over, and the whole of it.
\<close>

definition stop_end :: "unit seg \<times> Impl \<Rightarrow> unit seg \<times> Impl" where
  "stop_end r =
     (case r of
        (returns u, s) \<Rightarrow> (returns (), s\<lparr>state := STOPPED\<rparr>)
      | (throws err, s) \<Rightarrow> (throws err, s)
      | (blocks, s) \<Rightarrow> (blocks, s))"

definition stop :: "Impl \<Rightarrow> unit seg \<times> Impl" where
  "stop s =
     (if state s \<noteq> STOPPING \<and> state s \<noteq> JOINING \<and> state s \<noteq> STOPPED then
        stop_end (removeWorkersUnderLock (workerCount s) (s\<lparr>state := JOINING\<rparr>))
      else (returns (), s\<lparr>state := STOPPED\<rparr>))"

section \<open>Adding workers\<close>

text \<open>
  \<^verbatim>\<open>addWorker\<close> for the new threads \<open>new\<close>, as many as its argument says, in the order of
  their set. The factory makes them, with its own detached flag, before the mutex is
  taken. Under the mutex each is started, which detaches it when it is to be detached,
  and then entered in \<^verbatim>\<open>idMap_\<close> under the key that \<^verbatim>\<open>getId\<close> gives, where an insertion
  keeps the entry a key already has.
\<close>

definition addWorker_loop :: "Impl \<Rightarrow> unit seg \<times> Impl" where
  "addWorker_loop s = (if workerCount s \<noteq> workerMaxCount s then (blocks, s) else (returns (), s))"

fun start_workers :: "thread list \<Rightarrow> Impl \<Rightarrow> Impl" where
  "start_workers [] s = s"
| "start_workers (h # hs) s =
     (let key = Thread_getId (thread_detached s h) h
      in start_workers hs
           (if idMap s key = None then s\<lparr>idMap := (idMap s)(key \<mapsto> h)\<rparr> else s))"

definition addWorker :: "thread list \<Rightarrow> Impl \<Rightarrow> unit seg \<times> Impl" where
  "addWorker new s =
     (case threadFactory s of
        None \<Rightarrow>
          if new \<noteq> [] then (throws null_dereference, s)
          else addWorker_loop s
      | Some f \<Rightarrow>
          (let s1 = s\<lparr>thread_detached :=
                      (\<lambda>h. if h \<in> set new then detached f else thread_detached s h)\<rparr>;
               s2 = s1\<lparr>workerMaxCount := workerMaxCount s1 + of_nat (length new)\<rparr>;
               s3 = s2\<lparr>workers := workers s2 \<union> set new\<rparr>
           in addWorker_loop (start_workers new s3)))"

section \<open>Removing tasks\<close>

fun erase_first :: "Runnable \<Rightarrow> Task list \<Rightarrow> Task list" where
  "erase_first r [] = []"
| "erase_first r (t # ts) = (if runnable t = r then ts else t # erase_first r ts)"

definition removeTask :: "Runnable \<Rightarrow> Impl \<Rightarrow> unit seg \<times> Impl" where
  "removeTask r s =
     (if state s \<noteq> STARTED then
        (throws (std_exception_what ''ThreadManager::Impl::remove ThreadManager not started''), s)
      else (returns (), s\<lparr>tasks := erase_first r (tasks s)\<rparr>))"

definition removeNextPending :: "Impl \<Rightarrow> Runnable option seg \<times> Impl" where
  "removeNextPending s =
     (if state s \<noteq> STARTED then
        (throws (std_exception_what
           ''ThreadManager::Impl::removeNextPending ThreadManager not started''), s)
      else case tasks s of
        [] \<Rightarrow> (returns None, s)
      | t # ts \<Rightarrow> (returns (Some (runnable t)), s\<lparr>tasks := ts\<rparr>))"

section \<open>The worker\<close>

definition isActive :: "Impl \<Rightarrow> bool" where
  "isActive s = (workerCount s \<le> workerMaxCount s \<or> (state s = JOINING \<and> tasks s \<noteq> []))"

text \<open>
  \<^verbatim>\<open>Worker::run\<close> holds the mutex except in two places: in the wait on \<^verbatim>\<open>monitor_\<close> for a
  task, and while it runs a task. Between them it runs the pieces below; a piece ends
  with the worker waiting, running a task, or gone.
\<close>

datatype worker_seg = waits | runs Task | exits

text \<open>The final accounting of a worker, whose thread is \<open>self\<close>.\<close>

definition worker_exit :: "thread \<Rightarrow> Impl \<Rightarrow> Impl" where
  "worker_exit self s =
     (let s1 = s\<lparr>deadWorkers := insert self (deadWorkers s)\<rparr>;
          s2 = s1\<lparr>workerCount := workerCount s1 - 1\<rparr>
      in if workerCount s2 = workerMaxCount s2 then emit (Notify workerMonitor) s2 else s2)"

text \<open>
  Taking the task at the head of the queue: a waiting task is marked for execution, or
  timed out when its deadline has passed, and a submitter waiting for room is notified.
\<close>

definition worker_take :: "time_point \<Rightarrow> Task \<Rightarrow> Task list \<Rightarrow> Impl \<Rightarrow> Task \<times> Impl" where
  "worker_take now t ts s =
     (let task = (if task_state t = WAITING
                  then t\<lparr>task_state := (if expired now t then TIMEDOUT else EXECUTING)\<rparr>
                  else t);
          s1 = s\<lparr>tasks := ts\<rparr>
      in (task,
          if pendingTaskCountMax s1 \<noteq> 0 \<and> length (tasks s1) \<le> unat (pendingTaskCountMax s1 - 1)
          then emit (Notify maxMonitor) s1 else s1))"

text \<open>What the worker does with a task that is not to execute, still under the mutex.\<close>

definition worker_drop :: "Task \<Rightarrow> Impl \<Rightarrow> Impl" where
  "worker_drop task s =
     (case expireCallback s of
        None \<Rightarrow> s
      | Some cb \<Rightarrow>
          (let s1 = emit (Expire cb (runnable task)) s
           in s1\<lparr>expiredCount := expiredCount s1 + 1\<rparr>))"

text \<open>
  The body of the loop, from \<^verbatim>\<open>active = isActive()\<close>: wait when there is no task, otherwise
  take the first one; a task to execute is run with the mutex released, any other is
  dropped and the loop goes on.
\<close>

function worker_loop :: "thread \<Rightarrow> time_point \<Rightarrow> Impl \<Rightarrow> worker_seg \<times> Impl" where
  "worker_loop self now s =
     (if \<not> isActive s then (exits, worker_exit self s)
      else case tasks s of
        [] \<Rightarrow> (waits, s\<lparr>idleCount := idleCount s + 1\<rparr>)
      | t # ts \<Rightarrow>
          (case worker_take now t ts s of
             (task, s2) \<Rightarrow>
               if task_state task = EXECUTING then (runs task, s2)
               else worker_loop self now (worker_drop task s2)))"
  by pat_completeness auto
termination
  by (relation "measure (\<lambda>(self, now, s). length (tasks s))")
     (auto simp: worker_take_def worker_drop_def emit_def Let_def split: option.splits if_splits)

declare worker_loop.simps [simp del]

text \<open>The entry of \<^verbatim>\<open>Worker::run\<close>, once it has the mutex.\<close>

definition worker_run :: "thread \<Rightarrow> time_point \<Rightarrow> Impl \<Rightarrow> worker_seg \<times> Impl" where
  "worker_run self now s =
     (if workerCount s < workerMaxCount s then
        let s1 = s\<lparr>workerCount := workerCount s + 1\<rparr>;
            s2 = (if workerCount s1 = workerMaxCount s1 then emit (Notify workerMonitor) s1 else s1)
        in worker_loop self now s2
      else (exits, worker_exit self s))"

text \<open>
  The worker when its wait ends: it is idle no longer, and goes on with the value of
  \<^verbatim>\<open>isActive()\<close>, which does not read \<^verbatim>\<open>idleCount_\<close>. And the worker when its task is over.
\<close>

definition worker_woken :: "thread \<Rightarrow> time_point \<Rightarrow> Impl \<Rightarrow> worker_seg \<times> Impl" where
  "worker_woken self now s = worker_loop self now (s\<lparr>idleCount := idleCount s - 1\<rparr>)"

definition worker_ran :: "thread \<Rightarrow> time_point \<Rightarrow> Impl \<Rightarrow> worker_seg \<times> Impl" where
  "worker_ran self now s = worker_loop self now s"

section \<open>Threads sharing the manager\<close>

text \<open>
  The fields of the manager are written under its mutex, but for the sweep of
  \<^verbatim>\<open>removeExpiredTasks\<close>. A run of the program is a sequence of pieces of code, each run by
  one thread: from the moment it takes the mutex to the moment it releases it, or one
  pass of that sweep. A thread is described by the calls it is in, innermost first: a
  worker that waits for a task, a worker that runs a task (which may itself call the
  manager), a caller that waits inside an operation, a caller in the middle of a sweep.
\<close>

datatype call =
    Start
  | Stop
  | SetThreadFactory ThreadFactory
  | AddWorker "thread list"
  | RemoveWorker size_t
  | SetPendingTaskCountMax size_t
  | Add Runnable int int bool
  | Remove Runnable
  | RemoveNextPending
  | SetExpireCallback "ExpireCallback option"

datatype frame =
    worker_new
  | worker_idle
  | worker_busy Task
  | worker_done
  | in_call call
  | in_sweep time_point nat

record config =
  impl :: Impl
  stacks :: "thread \<Rightarrow> frame list"

definition config_new :: config where
  "config_new = \<lparr>impl = Impl_new, stacks = (\<lambda>t. [])\<rparr>"

text \<open>
  A thread can call the manager when it is in no call of it, or runs a task. The new
  threads of \<^verbatim>\<open>addWorker\<close> are threads not seen so far; the guard of \<^verbatim>\<open>add\<close> with a timeout
  of zero always has the mutex.
\<close>

definition in_user_code :: "frame list \<Rightarrow> bool" where
  "in_user_code fs = (case fs of [] \<Rightarrow> True | worker_busy task # below \<Rightarrow> True | f # below \<Rightarrow> False)"

fun call_enabled :: "thread \<Rightarrow> call \<Rightarrow> config \<Rightarrow> bool" where
  "call_enabled t (AddWorker new) c =
     (distinct new \<and> t \<notin> set new \<and> list_all (\<lambda>k. stacks c k = []) new)"
| "call_enabled t (Add v timeout expiration acquired) c = (acquired \<or> timeout \<noteq> 0)"
| "call_enabled t cl c = True"

definition unit_seg :: "'a seg \<times> Impl \<Rightarrow> unit seg \<times> Impl" where
  "unit_seg r =
     (case r of
        (returns a, s) \<Rightarrow> (returns (), s)
      | (throws err, s) \<Rightarrow> (throws err, s)
      | (blocks, s) \<Rightarrow> (blocks, s))"

text \<open>A call by thread \<open>t\<close>, from the mutex taken to the first wait or to the end.\<close>

fun do_call :: "thread \<Rightarrow> time_point \<Rightarrow> call \<Rightarrow> Impl \<Rightarrow> unit seg \<times> Impl" where
  "do_call t now Start s = start s"
| "do_call t now Stop s = stop s"
| "do_call t now (SetThreadFactory f) s = setThreadFactory f s"
| "do_call t now (AddWorker new) s = addWorker new s"
| "do_call t now (RemoveWorker n) s = removeWorkersUnderLock n s"
| "do_call t now (SetPendingTaskCountMax n) s = (returns (), setPendingTaskCountMax n s)"
| "do_call t now (Add v timeout expiration acquired) s =
     (if acquired then add_locked v timeout expiration t now s else (throws std_exception, s))"
| "do_call t now (Remove r) s = removeTask r s"
| "do_call t now RemoveNextPending s = unit_seg (removeNextPending s)"
| "do_call t now (SetExpireCallback cb) s = (returns (), setExpireCallback cb s)"

text \<open>A call that was waiting, from the end of its wait to the next wait or to the end.\<close>

fun resume_call :: "time_point \<Rightarrow> bool \<Rightarrow> call \<Rightarrow> Impl \<Rightarrow> unit seg \<times> Impl" where
  "resume_call now timedout Start s = start_loop s"
| "resume_call now timedout Stop s = stop_end (removeWorkers_loop s)"
| "resume_call now timedout (AddWorker new) s = addWorker_loop s"
| "resume_call now timedout (RemoveWorker n) s = removeWorkers_loop s"
| "resume_call now timedout (Add v timeout expiration acquired) s =
     add_woken v timeout expiration timedout now s"
| "resume_call now timedout cl s = (returns (), s)"

text \<open>The threads that a call has started when it first releases the mutex.\<close>

fun started_by :: "call \<Rightarrow> unit seg \<Rightarrow> thread list" where
  "started_by (AddWorker new) (throws err) = []"
| "started_by (AddWorker new) r = new"
| "started_by cl r = []"

definition settle :: "thread \<Rightarrow> call \<Rightarrow> frame list \<Rightarrow> unit seg \<times> Impl \<Rightarrow> config \<Rightarrow> config" where
  "settle t cl below r c =
     c\<lparr>impl := snd r,
       stacks := (stacks c)(t := (if fst r = blocks then in_call cl # below else below))\<rparr>"

definition start_threads :: "thread list \<Rightarrow> config \<Rightarrow> config" where
  "start_threads new c =
     c\<lparr>stacks := (\<lambda>k. if k \<in> set new then [worker_new] else stacks c k)\<rparr>"

definition worker_settle :: "thread \<Rightarrow> worker_seg \<times> Impl \<Rightarrow> config \<Rightarrow> config" where
  "worker_settle t r c =
     c\<lparr>impl := snd r,
       stacks := (stacks c)(t :=
         [case fst r of waits \<Rightarrow> worker_idle | runs task \<Rightarrow> worker_busy task | exits \<Rightarrow> worker_done])\<rparr>"

text \<open>
  The two steps of a thread in \<^verbatim>\<open>removeExpiredTasks\<close>: the entry, which returns at once
  when the queue is empty and reads the clock otherwise, and a pass of the loop.
\<close>

definition sweep_enter :: "thread \<Rightarrow> time_point \<Rightarrow> config \<Rightarrow> config" where
  "sweep_enter t now c =
     (if tasks (impl c) = [] then c
      else c\<lparr>stacks := (stacks c)(t := in_sweep now 0 # stacks c t)\<rparr>)"

definition sweep_settle ::
    "thread \<Rightarrow> time_point \<Rightarrow> frame list \<Rightarrow> nat option \<times> Impl \<Rightarrow> config \<Rightarrow> config" where
  "sweep_settle t now below r c =
     c\<lparr>impl := snd r,
       stacks := (stacks c)(t := (case fst r of None \<Rightarrow> below | Some j \<Rightarrow> in_sweep now j # below))\<rparr>"

text \<open>
  What a thread can do next: call the manager under its mutex, enter the sweep or go
  on with it, come back from a wait (notified, timed out, or for no reason, as a
  condition variable allows), enter \<^verbatim>\<open>Worker::run\<close>, or finish the task it runs. The
  result is \<open>None\<close> when the thread is not at that point.
\<close>

datatype event = Call call | Sweep | Continue | Wake bool | Enter | Finish

fun exec :: "thread \<Rightarrow> time_point \<Rightarrow> event \<Rightarrow> config \<Rightarrow> config option" where
  "exec t now (Call cl) c =
     (if in_user_code (stacks c t) \<and> call_enabled t cl c then
        let r = do_call t now cl (impl c)
        in Some (start_threads (started_by cl (fst r)) (settle t cl (stacks c t) r c))
      else None)"
| "exec t now Sweep c =
     (if in_user_code (stacks c t) then Some (sweep_enter t now c) else None)"
| "exec t now Continue c =
     (case stacks c t of
        [] \<Rightarrow> None
      | f # below \<Rightarrow>
          (case f of
             in_sweep began i \<Rightarrow> Some (sweep_settle t began below (sweep_pass began i (impl c)) c)
           | in_call cl \<Rightarrow> None
           | worker_new \<Rightarrow> None
           | worker_idle \<Rightarrow> None
           | worker_busy task \<Rightarrow> None
           | worker_done \<Rightarrow> None))"
| "exec t now (Wake timedout) c =
     (case stacks c t of
        [] \<Rightarrow> None
      | f # below \<Rightarrow>
          (case f of
             in_call cl \<Rightarrow> Some (settle t cl below (resume_call now timedout cl (impl c)) c)
           | worker_idle \<Rightarrow> Some (worker_settle t (worker_woken t now (impl c)) c)
           | worker_new \<Rightarrow> None
           | worker_busy task \<Rightarrow> None
           | worker_done \<Rightarrow> None
           | in_sweep began i \<Rightarrow> None))"
| "exec t now Enter c =
     (if stacks c t = [worker_new] then Some (worker_settle t (worker_run t now (impl c)) c)
      else None)"
| "exec t now Finish c =
     (case stacks c t of
        [] \<Rightarrow> None
      | f # below \<Rightarrow>
          (case f of
             worker_busy task \<Rightarrow> Some (worker_settle t (worker_ran t now (impl c)) c)
           | worker_new \<Rightarrow> None
           | worker_idle \<Rightarrow> None
           | worker_done \<Rightarrow> None
           | in_call cl \<Rightarrow> None
           | in_sweep began i \<Rightarrow> None))"

fun run :: "(thread \<times> time_point \<times> event) list \<Rightarrow> config \<Rightarrow> config option" where
  "run [] c = Some c"
| "run ((t, now, ev) # evs) c = (case exec t now ev c of None \<Rightarrow> None | Some c' \<Rightarrow> run evs c')"

section \<open>Notions used by the properties\<close>

text \<open>The calls of the expire callback for a list of tasks, in their order.\<close>

definition expire_calls :: "ExpireCallback option \<Rightarrow> Task list \<Rightarrow> effect list" where
  "expire_calls cb ts = (case cb of None \<Rightarrow> [] | Some c \<Rightarrow> map (\<lambda>t. Expire c (runnable t)) ts)"

text \<open>
  The enumerators of \<^verbatim>\<open>ThreadManager::STATE\<close> by their values, the four states that the
  manager goes through, and the moves of the state that one piece of code can make.
\<close>

fun STATE_value :: "STATE \<Rightarrow> nat" where
  "STATE_value UNINITIALIZED = 0"
| "STATE_value STARTING = 1"
| "STATE_value STARTED = 2"
| "STATE_value JOINING = 3"
| "STATE_value STOPPING = 4"
| "STATE_value STOPPED = 5"

definition traversed :: "STATE \<Rightarrow> bool" where
  "traversed a = (a = UNINITIALIZED \<or> a = STARTED \<or> a = JOINING \<or> a = STOPPED)"

definition advances :: "STATE \<Rightarrow> STATE \<Rightarrow> bool" where
  "advances a b =
     (b = a \<or> (a = UNINITIALIZED \<and> b = STARTED) \<or>
      (a \<noteq> STOPPING \<and> a \<noteq> JOINING \<and> a \<noteq> STOPPED \<and> b = JOINING) \<or> b = STOPPED)"

text \<open>Managers and runs that the properties are tried on.\<close>

definition example_factory :: ThreadFactory where
  "example_factory = \<lparr>detached = False\<rparr>"

definition example_started :: Impl where
  "example_started = Impl_new\<lparr>state := STARTED, threadFactory := Some example_factory\<rparr>"

definition example_full :: Impl where
  "example_full = example_started\<lparr>pendingTaskCountMax := 1,
     tasks := [Task_new 1 5 0, Task_new 2 0 0], idMap := [Some 1 \<mapsto> 1]\<rparr>"

definition example_pool :: Impl where
  "example_pool = example_started\<lparr>workerCount := 3, workerMaxCount := 3, idleCount := 3,
     workers := {1, 2, 3}, idMap := [Some 1 \<mapsto> 1, Some 2 \<mapsto> 2, Some 3 \<mapsto> 3]\<rparr>"

definition before_start :: "(thread \<times> time_point \<times> event) list" where
  "before_start = [(100, 0, Call (SetThreadFactory example_factory))]"

definition start_then_stop :: "(thread \<times> time_point \<times> event) list" where
  "start_then_stop =
     [(100, 0, Call (SetThreadFactory example_factory)),
      (100, 0, Call Start),
      (100, 0, Call (AddWorker [1])),
      (1, 0, Enter),
      (100, 0, Wake False),
      (100, 5, Call Stop)]"

definition workers_gone :: "(thread \<times> time_point \<times> event) list" where
  "workers_gone = start_then_stop @ [(1, 6, Wake False)]"

text \<open>A manager that is given a worker and stopped without having been started.\<close>

definition stop_unstarted :: "(thread \<times> time_point \<times> event) list" where
  "stop_unstarted =
     [(100, 0, Call (SetThreadFactory example_factory)),
      (100, 0, Call (AddWorker [1])),
      (1, 0, Enter),
      (100, 0, Wake False),
      (100, 5, Call Stop)]"

text \<open>
  A slow task and then a task with a deadline, submitted to a pool of one worker with no
  expire callback: when the worker is done with the first, at 500, the deadline of the
  second, 11, has passed. And the same submissions with a sweep at 500 while the worker
  is still busy: its entry and its two passes.
\<close>

definition expiry_at_dequeue :: "(thread \<times> time_point \<times> event) list" where
  "expiry_at_dequeue =
     [(100, 0, Call (SetThreadFactory example_factory)),
      (100, 0, Call Start),
      (100, 0, Call (AddWorker [1])),
      (1, 0, Enter),
      (100, 0, Wake False),
      (100, 0, Call (Add 8 0 0 True)),
      (1, 0, Wake False),
      (100, 1, Call (Add 7 0 10 True)),
      (1, 500, Finish)]"

definition expiry_by_sweep :: "(thread \<times> time_point \<times> event) list" where
  "expiry_by_sweep =
     [(100, 0, Call (SetThreadFactory example_factory)),
      (100, 0, Call Start),
      (100, 0, Call (AddWorker [1])),
      (1, 0, Enter),
      (100, 0, Wake False),
      (100, 0, Call (Add 8 0 0 True)),
      (1, 0, Wake False),
      (100, 1, Call (Add 7 0 10 True)),
      (100, 500, Sweep),
      (100, 500, Continue),
      (100, 500, Continue)]"

text \<open>
  Thread 100 adds a worker, which goes idle, and adds a second one; while it waits for
  the second worker to come up, thread 101 removes a worker; then the second worker
  enters \<^verbatim>\<open>Worker::run\<close>.
\<close>

definition add_remove_race :: "(thread \<times> time_point \<times> event) list" where
  "add_remove_race =
     [(100, 0, Call (SetThreadFactory example_factory)),
      (100, 0, Call Start),
      (100, 0, Call (AddWorker [1])),
      (1, 0, Enter),
      (100, 0, Wake False),
      (100, 0, Call (AddWorker [2])),
      (101, 0, Call (RemoveWorker 1)),
      (2, 0, Enter)]"

section \<open>The sweep\<close>

lemma removeExpired_from_all:
  "tasks s = pre @ ts \<Longrightarrow>
   removeExpired_from False now pre ts s =
     s\<lparr>expiredCount := expiredCount s + of_nat (length (filter (expired now) ts)),
       tasks := pre @ filter (\<lambda>t. \<not> expired now t) ts,
       effects := effects s @ expire_calls (expireCallback s) (filter (expired now) ts)\<rparr>"
proof (induction ts arbitrary: pre s)
  case Nil
  then show ?case by (simp add: expire_calls_def split: option.splits)
next
  case (Cons t ts)
  show ?case
  proof (cases "expired now t")
    case True
    then show ?thesis
      by (simp add: Cons.IH Let_def emit_def expire_calls_def split: option.splits)
  next
    case False
    with Cons.prems show ?thesis
      by (simp add: Cons.IH)
  qed
qed

lemma removeExpired_from_length:
  "tasks s = pre @ ts \<Longrightarrow>
   length (tasks (removeExpired_from j now pre ts s)) \<le> length pre + length ts"
proof (induction ts arbitrary: pre s)
  case Nil
  then show ?case by simp
next
  case (Cons t ts)
  show ?case
  proof (cases "expired now t")
    case False
    have "length (tasks (removeExpired_from j now (pre @ [t]) ts s)) \<le> length (pre @ [t]) + length ts"
      by (rule Cons.IH) (simp add: Cons.prems)
    with False show ?thesis by simp
  next
    case True
    define s3 where "s3 = (case expireCallback s of None \<Rightarrow> s
        | Some cb \<Rightarrow> emit (Expire cb (runnable t)) s)\<lparr>tasks := pre @ ts\<rparr>"
    have eq: "removeExpired_from j now pre (t # ts) s =
        (if j then s3\<lparr>expiredCount := expiredCount s3 + 1\<rparr>
         else removeExpired_from j now pre ts (s3\<lparr>expiredCount := expiredCount s3 + 1\<rparr>))"
      using True by (simp add: s3_def Let_def)
    have t3: "tasks (s3\<lparr>expiredCount := expiredCount s3 + 1\<rparr>) = pre @ ts"
      by (simp add: s3_def)
    show ?thesis
    proof (cases j)
      case True
      with eq t3 show ?thesis by simp
    next
      case False
      with eq Cons.IH [OF t3] show ?thesis by simp
    qed
  qed
qed

lemma removeExpired_from_cap:
  "pendingTaskCountMax (removeExpired_from j now pre ts s) = pendingTaskCountMax s"
  by (induction ts arbitrary: pre s) (auto simp: Let_def emit_def split: option.splits)

lemma removeExpired_from_frame:
  "state (removeExpired_from j now pre ts s) = state s \<and>
   threadFactory (removeExpired_from j now pre ts s) = threadFactory s \<and>
   idMap (removeExpired_from j now pre ts s) = idMap s"
  by (induction ts arbitrary: pre s) (auto simp: Let_def emit_def split: option.splits)

lemma at_cap_removeExpired: "at_cap (removeExpired j now s) \<Longrightarrow> at_cap s"
proof (cases "tasks s = []")
  case True
  assume "at_cap (removeExpired j now s)"
  with True show ?thesis by (simp add: removeExpired_def)
next
  case False
  assume a: "at_cap (removeExpired j now s)"
  have "length (tasks (removeExpired_from j now [] (tasks s) s)) \<le> length (tasks s)"
    using removeExpired_from_length [of s "[]" "tasks s" j now] by simp
  with a False show ?thesis
    by (simp add: at_cap_def removeExpired_def removeExpired_from_cap)
qed

lemma removeExpired_example_full:
  "removeExpired True 100 example_full =
     example_full\<lparr>tasks := [Task_new 2 0 0], expiredCount := 1\<rparr>"
  by (simp add: removeExpired_def example_full_def example_started_def Impl_new_def Task_new_def
        expired_def Let_def)

lemma at_cap_example: "at_cap (example_full\<lparr>tasks := [Task_new 2 0 0], expiredCount := 1\<rparr>)"
  by (simp add: at_cap_def example_full_def)

section \<open>The state of the manager along a run\<close>

lemma state_emit [simp]: "state (emit e s) = state s"
  by (simp add: emit_def)

lemma state_removeExpired_from [simp]:
  "state (removeExpired_from j now pre ts s) = state s"
  by (induction ts arbitrary: pre s) (auto simp: Let_def split: option.splits)

lemma state_removeExpired [simp]: "state (removeExpired j now s) = state s"
  by (simp add: removeExpired_def)

lemma state_add_loop [simp]: "state (snd (add_loop v e now s)) = state s"
  by (simp add: add_loop_def add_push_def Let_def)

lemma state_add_locked [simp]: "state (snd (add_locked v timeout e t now s)) = state s"
  by (simp add: add_locked_def add_push_def canSleep_def Let_def split: option.splits sum.splits)

lemma state_add_woken [simp]: "state (snd (add_woken v timeout e timedout now s)) = state s"
  by (simp add: add_woken_def split: option.splits)

lemma state_notify_times [simp]: "state (notify_times k s) = state s"
  by (induction k arbitrary: s) auto

lemma state_drain_workers [simp]: "state (drain_workers f hs s) = state s"
  by (induction hs arbitrary: s) (simp_all add: Let_def)

lemma state_removeWorkers_loop [simp]: "state (snd (removeWorkers_loop s)) = state s"
  by (simp add: removeWorkers_loop_def removeWorkers_drain_def split: option.splits)

lemma state_removeWorkersUnderLock [simp]: "state (snd (removeWorkersUnderLock n s)) = state s"
  by (simp add: removeWorkersUnderLock_def Let_def)

lemma state_start_workers [simp]: "state (start_workers new s) = state s"
  by (induction new arbitrary: s) (simp_all add: Let_def)

lemma state_addWorker [simp]: "state (snd (addWorker new s)) = state s"
  by (simp add: addWorker_def addWorker_loop_def Let_def split: option.splits)

lemma state_sweep_pass [simp]: "state (snd (sweep_pass now i s)) = state s"
  by (simp add: sweep_pass_def Let_def split: list.splits option.splits)

lemma state_worker_exit [simp]: "state (worker_exit self s) = state s"
  by (simp add: worker_exit_def Let_def)

lemma state_worker_take [simp]: "state (snd (worker_take now t ts s)) = state s"
  by (simp add: worker_take_def Let_def)

lemma state_worker_drop [simp]: "state (worker_drop task s) = state s"
  by (simp add: worker_drop_def Let_def split: option.splits)

lemma state_worker_loop [simp]: "state (snd (worker_loop self now s)) = state s"
proof (induction self now s rule: worker_loop.induct)
  case (1 self now s)
  show ?case
  proof (cases "isActive s")
    case False
    then show ?thesis by (subst worker_loop.simps) simp
  next
    case True
    show ?thesis
    proof (cases "tasks s")
      case Nil
      with True show ?thesis by (subst worker_loop.simps) simp
    next
      case (Cons t ts)
      obtain task s2 where tk: "worker_take now t ts s = (task, s2)"
        by (cases "worker_take now t ts s")
      have s2: "state s2 = state s"
        using state_worker_take [of now t ts s] tk by simp
      show ?thesis
      proof (cases "task_state task = EXECUTING")
        case e: True
        with True Cons tk s2 show ?thesis by (subst worker_loop.simps) simp
      next
        case e: False
        have "state (snd (worker_loop self now (worker_drop task s2))) = state (worker_drop task s2)"
          using "1.IH" True Cons tk e by simp
        with True Cons tk s2 e show ?thesis by (subst worker_loop.simps) simp
      qed
    qed
  qed
qed

text \<open>What \<^verbatim>\<open>start\<close> and \<^verbatim>\<open>stop\<close> make of the state.\<close>

lemma state_start:
  "state (snd (start s)) =
     (if state s = UNINITIALIZED \<and> threadFactory s \<noteq> None then STARTED else state s)"
  by (simp add: start_def start_loop_def)

lemma stop_end_cases:
  "(fst (stop_end r) = returns ()) = (fst r = returns ()) \<and>
   state (snd (stop_end r)) = (if fst r = returns () then STOPPED else state (snd r))"
  by (cases r; cases "fst r") (auto simp: stop_end_def)

lemma state_stop:
  "state (snd (stop s)) = (if fst (stop s) = returns () then STOPPED else JOINING)"
proof (cases "state s \<noteq> STOPPING \<and> state s \<noteq> JOINING \<and> state s \<noteq> STOPPED")
  case True
  then show ?thesis
    using stop_end_cases [of "removeWorkersUnderLock (workerCount s) (s\<lparr>state := JOINING\<rparr>)"]
    by (simp add: stop_def)
next
  case False
  then show ?thesis by (auto simp: stop_def)
qed

lemma stop_when_stopping:
  "state s = JOINING \<or> state s = STOPPED \<Longrightarrow> state (snd (stop s)) = STOPPED"
  by (auto simp: stop_def)

lemma state_do_call:
  "cl \<noteq> Start \<Longrightarrow> cl \<noteq> Stop \<Longrightarrow> state (snd (do_call t now cl s)) = state s"
proof (cases cl)
  case (SetThreadFactory f)
  then show ?thesis by (simp add: setThreadFactory_def split: option.splits)
next
  case RemoveNextPending
  then show ?thesis
    by (simp add: removeNextPending_def unit_seg_def split: list.splits)
qed (simp_all add: setPendingTaskCountMax_def removeTask_def setExpireCallback_def)

lemma state_resume_call:
  "cl \<noteq> Stop \<Longrightarrow> state (snd (resume_call now timedout cl s)) = state s"
  by (cases cl) (simp_all add: start_loop_def addWorker_loop_def)

lemma state_resume_stop:
  "state (snd (resume_call now timedout Stop s)) =
     (if fst (removeWorkers_loop s) = returns () then STOPPED else state s)"
  using stop_end_cases [of "removeWorkers_loop s"] by simp

lemma impl_exec_Call:
  "exec t now (Call cl) c = Some c' \<Longrightarrow> impl c' = snd (do_call t now cl (impl c))"
  by (auto simp: Let_def settle_def start_threads_def split: if_splits)

lemma impl_exec_Wake:
  assumes "exec t now (Wake timedout) c = Some c'"
  shows "(\<exists>cl below. stacks c t = in_call cl # below \<and>
            impl c' = snd (resume_call now timedout cl (impl c))) \<or>
         ((\<forall>cl below. stacks c t \<noteq> in_call cl # below) \<and> state (impl c') = state (impl c))"
proof (cases "stacks c t")
  case Nil
  with assms show ?thesis by simp
next
  case (Cons f below)
  show ?thesis
  proof (cases f)
    case (in_call cl)
    with assms Cons show ?thesis by (auto simp: settle_def)
  next
    case worker_idle
    with assms Cons show ?thesis by (auto simp: worker_settle_def worker_woken_def)
  qed (use assms Cons in simp_all)
qed

lemma state_exec_other:
  assumes "exec t now ev c = Some c'"
    and "ev \<noteq> Call Start" and "ev \<noteq> Call Stop" and "\<forall>b. ev \<noteq> Wake b"
  shows "state (impl c') = state (impl c)"
proof (cases ev)
  case (Call cl)
  with assms show ?thesis
    using impl_exec_Call [of t now cl c c'] state_do_call [of cl t now "impl c"] by auto
next
  case Sweep
  with assms show ?thesis by (auto simp: sweep_enter_def split: if_splits)
next
  case Continue
  with assms show ?thesis
    by (auto simp: sweep_settle_def split: list.splits frame.splits)
next
  case (Wake b)
  with assms(4) show ?thesis by blast
next
  case Enter
  with assms show ?thesis
    by (auto simp: worker_settle_def worker_run_def Let_def split: if_splits)
next
  case Finish
  with assms show ?thesis
    by (auto simp: worker_settle_def worker_ran_def split: list.splits frame.splits)
qed

lemma advances_exec:
  assumes "exec t now ev c = Some c'"
  shows "advances (state (impl c)) (state (impl c'))"
proof -
  consider "ev = Call Start" | "ev = Call Stop" | b where "ev = Wake b"
    | "ev \<noteq> Call Start" "ev \<noteq> Call Stop" "\<forall>b. ev \<noteq> Wake b"
    by blast
  then show ?thesis
  proof cases
    case 1
    with assms have "impl c' = snd (start (impl c))"
      using impl_exec_Call [of t now Start c c'] by simp
    then show ?thesis by (simp add: state_start advances_def)
  next
    case 2
    with assms have i: "impl c' = snd (stop (impl c))"
      using impl_exec_Call [of t now Stop c c'] by simp
    show ?thesis
    proof (cases "state (impl c) = JOINING \<or> state (impl c) = STOPPED")
      case True
      then show ?thesis using stop_when_stopping [of "impl c"] i by (simp add: advances_def)
    next
      case False
      then show ?thesis using state_stop [of "impl c"] i
        by (cases "state (impl c)") (auto simp: advances_def stop_def)
    qed
  next
    case 3
    from impl_exec_Wake [OF assms [unfolded 3]] show ?thesis
    proof
      assume "\<exists>cl below. stacks c t = in_call cl # below \<and>
            impl c' = snd (resume_call now b cl (impl c))"
      then obtain cl where i: "impl c' = snd (resume_call now b cl (impl c))" by blast
      show ?thesis
      proof (cases "cl = Stop")
        case True
        with i show ?thesis using state_resume_stop [of now b "impl c"] by (simp add: advances_def)
      next
        case False
        with i show ?thesis using state_resume_call [of cl now b "impl c"] by (simp add: advances_def)
      qed
    next
      assume "(\<forall>cl below. stacks c t \<noteq> in_call cl # below) \<and> state (impl c') = state (impl c)"
      then show ?thesis by (simp add: advances_def)
    qed
  next
    case 4
    with assms show ?thesis using state_exec_other [of t now ev c c'] by (simp add: advances_def)
  qed
qed

lemma traversed_advances:
  "traversed a \<Longrightarrow> advances a b \<Longrightarrow> traversed b \<and> STATE_value a \<le> STATE_value b"
  by (auto simp: traversed_def advances_def)

lemma traversed_run:
  "run evs c = Some c' \<Longrightarrow> traversed (state (impl c)) \<Longrightarrow> traversed (state (impl c'))"
proof (induction evs arbitrary: c)
  case Nil
  then show ?case by simp
next
  case (Cons e evs)
  obtain t now ev where e: "e = (t, now, ev)" by (cases e) auto
  from Cons.prems(1) e obtain c1 where c1: "exec t now ev c = Some c1" and r: "run evs c1 = Some c'"
    by (auto split: option.splits)
  from advances_exec [OF c1] Cons.prems(2) have "traversed (state (impl c1))"
    using traversed_advances by blast
  with Cons.IH [OF r] show ?case .
qed

text \<open>The sweep that no thread comes across is the loop of \<^verbatim>\<open>removeExpired\<close>.\<close>

lemma sweep_passes_removeExpired_from:
  "tasks s = pre @ rest \<Longrightarrow> length rest < k \<Longrightarrow>
   sweep_passes k now (length pre) s = removeExpired_from False now pre rest s"
proof (induction rest arbitrary: pre s k)
  case Nil
  then obtain k' where "k = Suc k'" by (cases k) auto
  with Nil show ?case by (simp add: sweep_pass_def)
next
  case (Cons t rest)
  then obtain k' where k: "k = Suc k'" and l: "length rest < k'" by (cases k) auto
  show ?case
  proof (cases "expired now t")
    case True
    define s3 where "s3 = (case expireCallback s of None \<Rightarrow> s
        | Some cb \<Rightarrow> emit (Expire cb (runnable t)) s)\<lparr>tasks := pre @ rest\<rparr>"
    have t1: "tasks (case expireCallback s of None \<Rightarrow> s
        | Some cb \<Rightarrow> emit (Expire cb (runnable t)) s) = pre @ t # rest"
      using Cons.prems(1) by (simp add: emit_def split: option.splits)
    have p: "sweep_pass now (length pre) s =
        (Some (length pre), s3\<lparr>expiredCount := expiredCount s3 + 1\<rparr>)"
      using True Cons.prems(1) t1 by (simp add: sweep_pass_def Let_def s3_def)
    have r: "removeExpired_from False now pre (t # rest) s =
        removeExpired_from False now pre rest (s3\<lparr>expiredCount := expiredCount s3 + 1\<rparr>)"
      using True by (simp add: s3_def Let_def)
    have "tasks (s3\<lparr>expiredCount := expiredCount s3 + 1\<rparr>) = pre @ rest"
      by (simp add: s3_def)
    from Cons.IH [OF this l] p r k show ?thesis by simp
  next
    case False
    have p: "sweep_pass now (length pre) s = (Some (Suc (length pre)), s)"
      using False Cons.prems(1) by (simp add: sweep_pass_def)
    have "tasks s = (pre @ [t]) @ rest" using Cons.prems(1) by simp
    from Cons.IH [OF this l] p False k show ?thesis by simp
  qed
qed

lemma sweep_passes_removeExpiredTasks:
  "tasks s \<noteq> [] \<Longrightarrow> sweep_passes (Suc (length (tasks s))) now 0 s = removeExpiredTasks now s"
  using sweep_passes_removeExpired_from [of s "[]" "tasks s" "Suc (length (tasks s))" now]
  by (simp add: removeExpiredTasks_def removeExpired_def)

section \<open>The notifications of removeWorkersUnderLock\<close>

lemma notify_times_eq:
  "notify_times k s = s\<lparr>effects := effects s @ replicate k (Notify monitor)\<rparr>"
proof (induction k arbitrary: s)
  case 0
  then show ?case by simp
next
  case (Suc k)
  show ?case by (simp add: Suc emit_def replicate_app_Cons_same)
qed

lemma drain_workers_frame:
  "workerMaxCount (drain_workers f hs s) = workerMaxCount s \<and>
   (\<exists>js. effects (drain_workers f hs s) = effects s @ map Join js)"
proof (induction hs arbitrary: s)
  case Nil
  show ?case by (simp add: exI [of _ "[]"])
next
  case (Cons h hs)
  define s1 where "s1 = (if \<not> detached f then emit (Join h) s else s)"
  define s2 where "s2 = s1\<lparr>idMap := (idMap s1)
      (Thread_getId (thread_detached s h \<or> \<not> detached f \<and> \<not> thread_detached s h) h := None),
      workers := workers s1 - {h}\<rparr>"
  have eq: "drain_workers f (h # hs) s = drain_workers f hs s2"
    by (simp add: s1_def s2_def Let_def)
  obtain js where js: "effects (drain_workers f hs s2) = effects s2 @ map Join js"
    using Cons [of s2] by blast
  have e2: "effects s2 = effects s @ map Join (if detached f then [] else [h])"
    by (simp add: s2_def s1_def emit_def)
  have "effects (drain_workers f hs s2) =
      effects s @ map Join ((if detached f then [] else [h]) @ js)"
    using js e2 by simp
  moreover have "workerMaxCount (drain_workers f hs s2) = workerMaxCount s"
    using Cons [of s2] by (simp add: s2_def s1_def emit_def)
  ultimately show ?case unfolding eq by blast
qed

lemma removeWorkers_drain_frame:
  "workerMaxCount (snd (removeWorkers_drain s)) = workerMaxCount s \<and>
   (\<exists>js. effects (snd (removeWorkers_drain s)) = effects s @ map Join js)"
proof (cases "deadWorkers s = {}")
  case True
  then show ?thesis by (simp add: removeWorkers_drain_def)
next
  case False
  show ?thesis
  proof (cases "threadFactory s")
    case None
    with False show ?thesis by (simp add: removeWorkers_drain_def)
  next
    case (Some f)
    with False show ?thesis
      using drain_workers_frame [of f "sorted_list_of_set (deadWorkers s)" s]
      by (simp add: removeWorkers_drain_def)
  qed
qed

lemma removeWorkers_loop_frame:
  "workerMaxCount (snd (removeWorkers_loop s)) = workerMaxCount s \<and>
   (\<exists>js. effects (snd (removeWorkers_loop s)) = effects s @ map Join js)"
  using removeWorkers_drain_frame [of s] by (simp add: removeWorkers_loop_def)

section \<open>The claims\<close>

text \<open>
  C1, as amended. The guard of \<^verbatim>\<open>add\<close> takes the mutex in a way that depends on the sign
  of the timeout. A positive timeout: \<^verbatim>\<open>timedlock\<close>, which takes at most that many
  milliseconds, and a failure to get the mutex raises the exception of \<^verbatim>\<open>add\<close> with the
  manager untouched. A zero timeout: \<^verbatim>\<open>lock\<close>, which never gives up; the call does not
  return when the mutex is never released. A negative timeout: \<^verbatim>\<open>trylock\<close>, which does
  not wait at all; when the mutex is held at that moment the call raises the same
  exception at once.
\<close>

theorem add_mutex_acquisition:
  "(0 < timeout \<longrightarrow>
      Guard m timeout = Some (Mutex_timedlock m timeout) \<and>
      int (snd (Mutex_timedlock m timeout)) \<le> timeout \<and>
      (\<not> fst (Mutex_timedlock m timeout) \<longrightarrow>
         add v timeout expiration m caller now ws s = Some (Inl std_exception, s))) \<and>
   (timeout = 0 \<longrightarrow>
      Guard m timeout = map_option (Pair True) (Mutex_lock m) \<and>
      (Mutex_lock m = None \<longrightarrow> add v timeout expiration m caller now ws s = None)) \<and>
   (timeout < 0 \<longrightarrow>
      Guard m timeout = Some (Mutex_trylock m, 0) \<and>
      (\<not> Mutex_trylock m \<longrightarrow>
         add v timeout expiration m caller now ws s = Some (Inl std_exception, s)))"
  by (cases m) (auto simp: Guard_def Mutex_lock_def Mutex_timedlock_def add_def)

theorem add_mutex_acquisition_witness:
  "Guard (Some 5) 3 = Some (False, 3) \<and>
   add 7 3 0 (Some 5) 100 0 [] example_started = Some (Inl std_exception, example_started) \<and>
   Guard (Some 5) 0 = Some (True, 5) \<and>
   add 7 0 0 None 100 0 [] example_started = None \<and>
   Guard (Some 5) (- 1) = Some (False, 0) \<and>
   add 7 (- 1) 0 (Some 5) 100 0 [] example_started = Some (Inl std_exception, example_started)"
  using add_mutex_acquisition [of 3 "Some 5" 7 0 100 0 "[]" example_started]
    add_mutex_acquisition [of 0 "Some 5" 7 0 100 0 "[]" example_started]
    add_mutex_acquisition [of 0 None 7 0 100 0 "[]" example_started]
    add_mutex_acquisition [of "- 1" "Some 5" 7 0 100 0 "[]" example_started]
  by (simp add: Mutex_lock_def Mutex_trylock_def Mutex_timedlock_def)

text \<open>
  C1 as stated fails: it has a call with a negative timeout wait for the mutex. With the
  mutex held for 5 more milliseconds, \<^verbatim>\<open>add\<close> with timeout -1 fails without waiting, on a
  started manager with room in its queue, where the same call with timeout 0 waits and
  queues the task.
\<close>

theorem negative_timeout_does_not_wait:
  "Guard (Some 5) (- 1) = Some (False, 0) \<and>
   add 7 (- 1) 0 (Some 5) 100 0 [] example_started = Some (Inl std_exception, example_started) \<and>
   add 7 0 0 (Some 5) 100 0 [] example_started =
     Some (Inr (), example_started\<lparr>tasks := [Task_new 7 0 0]\<rparr>)"
  by (simp add: Guard_def Mutex_lock_def Mutex_trylock_def add_def add_locked_def seg_outcome_def
        at_cap_def add_push_def example_started_def Impl_new_def Let_def)

text \<open>
  C2. On a started manager (so with a thread factory) whose queue is still at its nonzero
  cap after the sweep of one task, \<^verbatim>\<open>add\<close> with timeout -1 raises the exception and the
  queue gets no new task: the manager is left as the sweep left it, or untouched when
  the guard did not get the mutex.
\<close>

theorem add_fail_fast:
  assumes "state s = STARTED" and "threadFactory s \<noteq> None"
    and "at_cap (removeExpired True now s)"
  shows "add v (- 1) expiration m caller now ws s =
           Some (Inl std_exception, if m = Some 0 then removeExpired True now s else s)"
  using assms at_cap_removeExpired [OF assms(3)]
  by (auto simp: add_def Guard_def Mutex_trylock_def add_locked_def canSleep_def seg_outcome_def
        removeExpired_def removeExpired_from_frame split: option.splits)

theorem add_fail_fast_witness:
  "state example_full = STARTED \<and>
   at_cap (removeExpired True 100 example_full) \<and>
   tasks (removeExpired True 100 example_full) = [Task_new 2 0 0] \<and>
   add 3 (- 1) 0 (Some 0) 9 100 [] example_full =
     Some (Inl std_exception, removeExpired True 100 example_full) \<and>
   add 3 (- 1) 0 (Some 4) 9 100 [] example_full = Some (Inl std_exception, example_full)"
  using add_fail_fast [of example_full 100 3 0 "Some 0" 9 "[]"]
    add_fail_fast [of example_full 100 3 0 "Some 4" 9 "[]"]
    at_cap_example
  by (simp add: removeExpired_example_full) (simp add: example_full_def example_started_def)

text \<open>
  C3. A call of \<^verbatim>\<open>add\<close> by a thread whose id is a key of \<^verbatim>\<open>idMap_\<close>, on a started manager
  whose queue is still at its nonzero cap after the sweep of one task, raises the
  exception whatever the timeout, once the constructor of the guard has returned. The
  outcome does not depend on the list \<open>ws\<close>: the call never waits on \<^verbatim>\<open>maxMonitor_\<close>.
\<close>

theorem add_worker_caller_fails:
  assumes "state s = STARTED" and "threadFactory s \<noteq> None" and "idMap s (getCurrentThreadId caller) \<noteq> None"
    and "at_cap (removeExpired True now s)" and "Guard m timeout = Some (acquired, d)"
  shows "add v timeout expiration m caller now ws s =
           Some (Inl std_exception, if acquired then removeExpired True now s else s)"
  using assms at_cap_removeExpired [OF assms(4)]
  by (auto simp: add_def add_locked_def canSleep_def seg_outcome_def
        removeExpired_def removeExpired_from_frame split: option.splits)

theorem add_worker_caller_fails_witness:
  "idMap example_full (getCurrentThreadId 1) = Some 1 \<and>
   at_cap (removeExpired True 100 example_full) \<and>
   Guard (Some 0) 0 = Some (True, 0) \<and>
   add 3 0 0 (Some 0) 1 100 [] example_full =
     Some (Inl std_exception, removeExpired True 100 example_full)"
  using add_worker_caller_fails [of example_full 1 100 "Some 0" 0 True 0 3 0 "[]"] at_cap_example
  by (simp add: removeExpired_example_full Guard_def Mutex_lock_def getCurrentThreadId_def)
     (simp add: example_full_def example_started_def)

text \<open>
  C4 fails on the code. A task that a worker finds past its deadline when it takes it
  from the queue is dropped without being counted when no expire callback is set: after
  the run \<open>expiry_at_dequeue\<close> the queue is empty, the worker is idle again, and
  \<^verbatim>\<open>expiredCount_\<close> is still 0. The sweep counts the same task, callback or not.
\<close>

theorem expired_at_dequeue_not_counted:
  "run expiry_at_dequeue config_new \<noteq> None \<and>
   tasks (impl (the (run expiry_at_dequeue config_new))) = [] \<and>
   stacks (the (run expiry_at_dequeue config_new)) 1 = [worker_idle] \<and>
   expireCallback (impl (the (run expiry_at_dequeue config_new))) = None \<and>
   expiredCount (impl (the (run expiry_at_dequeue config_new))) = 0 \<and>
   expiredCount (impl (the (run expiry_by_sweep config_new))) = 1"
  by code_simp

text \<open>
  C5. \<^verbatim>\<open>removeWorker(n)\<close> with \<open>n\<close> above \<^verbatim>\<open>workerMaxCount_\<close> raises the exception and leaves
  the manager as it was. Otherwise, when the call first releases the mutex (to wait for
  the workers to go, or at its end), \<^verbatim>\<open>workerMaxCount_\<close> is lower by \<open>n\<close> and the call has
  notified \<^verbatim>\<open>monitor_\<close> exactly \<open>n\<close> times when \<^verbatim>\<open>idleCount_\<close> is above \<open>n\<close>, and broadcast on
  it once otherwise; all it has done besides is to join dead workers. A call that does
  not have to wait leaves the manager in that state.
\<close>

theorem removeWorker_spec:
  "(workerMaxCount s < n \<longrightarrow> removeWorker n ws s = Some (Inl std_exception, s)) \<and>
   (n \<le> workerMaxCount s \<longrightarrow>
      workerMaxCount (snd (removeWorkersUnderLock n s)) = workerMaxCount s - n \<and>
      (\<exists>js. effects (snd (removeWorkersUnderLock n s)) =
         effects s @
         (if n < idleCount s then replicate (unat n) (Notify monitor) else [NotifyAll monitor]) @
         map Join js) \<and>
      (fst (removeWorkersUnderLock n s) \<noteq> blocks \<longrightarrow>
         map_option snd (removeWorker n ws s) = Some (snd (removeWorkersUnderLock n s))))"
proof (cases "workerMaxCount s < n")
  case True
  then have "\<not> n \<le> workerMaxCount s" by simp
  with True show ?thesis
    by (simp add: removeWorker_def removeWorkersUnderLock_def seg_outcome_def)
next
  case False
  define s2 where "s2 = s\<lparr>workerMaxCount := workerMaxCount s - n,
    effects := effects s @
      (if n < idleCount s then replicate (unat n) (Notify monitor) else [NotifyAll monitor])\<rparr>"
  have eq: "removeWorkersUnderLock n s = removeWorkers_loop s2"
    using False by (simp add: removeWorkersUnderLock_def s2_def Let_def notify_times_eq emit_def)
  obtain js where js: "effects (snd (removeWorkers_loop s2)) = effects s2 @ map Join js"
    using removeWorkers_loop_frame [of s2] by blast
  have a: "workerMaxCount (snd (removeWorkersUnderLock n s)) = workerMaxCount s - n"
    using removeWorkers_loop_frame [of s2] by (simp add: eq s2_def)
  have b: "effects (snd (removeWorkersUnderLock n s)) =
         effects s @
         (if n < idleCount s then replicate (unat n) (Notify monitor) else [NotifyAll monitor]) @
         map Join js"
    using js by (simp add: eq s2_def)
  have c: "map_option snd (removeWorker n ws s) = Some (snd (removeWorkersUnderLock n s))"
    if "fst (removeWorkersUnderLock n s) \<noteq> blocks"
    using that by (cases "removeWorkersUnderLock n s"; cases "fst (removeWorkersUnderLock n s)")
      (auto simp: removeWorker_def seg_outcome_def)
  from False a b c show ?thesis by auto
qed

theorem removeWorker_spec_witness:
  "removeWorker 4 [] example_pool = Some (Inl std_exception, example_pool) \<and>
   workerMaxCount (snd (removeWorkersUnderLock 2 example_pool)) = 1 \<and>
   effects (snd (removeWorkersUnderLock 2 example_pool)) = [Notify monitor, Notify monitor] \<and>
   workerMaxCount (snd (removeWorkersUnderLock 3 example_pool)) = 0 \<and>
   effects (snd (removeWorkersUnderLock 3 example_pool)) = [NotifyAll monitor]"
proof -
  have a: "effects (snd (removeWorkersUnderLock 2 example_pool)) = [Notify monitor, Notify monitor]"
    by code_simp
  have b: "effects (snd (removeWorkersUnderLock 3 example_pool)) = [NotifyAll monitor]"
    by code_simp
  have c: "workerMaxCount example_pool = 3"
    by (simp add: example_pool_def)
  show ?thesis
    using removeWorker_spec [of example_pool 4 "[]"] removeWorker_spec [of example_pool 2 "[]"]
      removeWorker_spec [of example_pool 3 "[]"] a b
    by (simp add: c)
qed

text \<open>
  C6. \<^verbatim>\<open>removeExpiredTasks\<close> at the instant \<open>now\<close> removes from the queue the tasks whose
  deadline precedes \<open>now\<close> and keeps the others in their order, calls the expire callback,
  when there is one, once for each task removed, in the order of the queue, and adds
  the number of tasks removed to \<^verbatim>\<open>expiredCount_\<close>. Nothing else changes.
\<close>

theorem removeExpiredTasks_sweep:
  "removeExpiredTasks now s =
     s\<lparr>expiredCount := expiredCount s + of_nat (length (filter (expired now) (tasks s))),
       tasks := filter (\<lambda>t. \<not> expired now t) (tasks s),
       effects := effects s @
         (case expireCallback s of None \<Rightarrow> []
          | Some cb \<Rightarrow> map (\<lambda>t. Expire cb (runnable t)) (filter (expired now) (tasks s)))\<rparr>"
  by (cases "tasks s = []")
     (simp_all add: removeExpiredTasks_def removeExpired_def removeExpired_from_all
        expire_calls_def split: option.splits)

theorem removeExpiredTasks_sweep_witness:
  "removeExpiredTasks 100 (example_full\<lparr>expireCallback := Some 4\<rparr>) =
     example_full\<lparr>expireCallback := Some 4, expiredCount := 1, tasks := [Task_new 2 0 0],
       effects := [Expire 4 1]\<rparr>"
  using removeExpiredTasks_sweep [of 100 "example_full\<lparr>expireCallback := Some 4\<rparr>"]
  by (simp add: example_full_def example_started_def Impl_new_def Task_new_def expired_def)

text \<open>
  C7, as amended. \<^verbatim>\<open>start\<close> on a manager that is \<^verbatim>\<open>UNINITIALIZED\<close> and has no thread factory
  raises the exception and changes nothing; on a manager that is \<^verbatim>\<open>STOPPED\<close> it returns
  and changes nothing, thread factory or not; on a manager that is \<^verbatim>\<open>UNINITIALIZED\<close> and
  has a thread factory it sets the state to \<^verbatim>\<open>STARTED\<close>, broadcasts on \<^verbatim>\<open>monitor_\<close> and
  returns.
\<close>

theorem start_spec:
  "(state s = UNINITIALIZED \<and> threadFactory s = None \<longrightarrow> start s = (throws std_exception, s)) \<and>
   (state s = STOPPED \<longrightarrow> start s = (returns (), s)) \<and>
   (state s = UNINITIALIZED \<and> threadFactory s \<noteq> None \<longrightarrow>
      start s = (returns (), s\<lparr>state := STARTED, effects := effects s @ [NotifyAll monitor]\<rparr>))"
  by (auto simp: start_def start_loop_def emit_def)

theorem start_spec_witness:
  "start Impl_new = (throws std_exception, Impl_new) \<and>
   start (Impl_new\<lparr>state := STOPPED\<rparr>) = (returns (), Impl_new\<lparr>state := STOPPED\<rparr>) \<and>
   start (Impl_new\<lparr>threadFactory := Some example_factory\<rparr>) =
     (returns (), Impl_new\<lparr>threadFactory := Some example_factory, state := STARTED,
        effects := [NotifyAll monitor]\<rparr>)"
  using start_spec [of Impl_new] start_spec [of "Impl_new\<lparr>state := STOPPED\<rparr>"]
    start_spec [of "Impl_new\<lparr>threadFactory := Some example_factory\<rparr>"]
  by (simp add: Impl_new_def)

text \<open>
  C7 as stated fails: it has \<^verbatim>\<open>start\<close> fail whenever no thread factory has been set. A
  manager stopped before it was given one is \<^verbatim>\<open>STOPPED\<close> with no factory, and \<^verbatim>\<open>start\<close>
  returns without an error there.
\<close>

theorem start_without_factory_when_stopped:
  "fst (stop Impl_new) = returns () \<and>
   state (snd (stop Impl_new)) = STOPPED \<and>
   threadFactory (snd (stop Impl_new)) = None \<and>
   start (snd (stop Impl_new)) = (returns (), snd (stop Impl_new))"
  by (simp add: stop_def stop_end_def removeWorkersUnderLock_def removeWorkers_loop_def
        removeWorkers_drain_def start_def emit_def Impl_new_def Let_def)

text \<open>
  C8 fails on the code. A worker that enters \<^verbatim>\<open>Worker::run\<close> when \<^verbatim>\<open>workerCount_\<close> has
  already reached \<^verbatim>\<open>workerMaxCount_\<close> does not count itself in, and still counts itself
  out on its way out. After the run \<open>add_remove_race\<close> one worker waits for a task,
  \<^verbatim>\<open>idleCount_\<close> is 1 and \<^verbatim>\<open>workerCount_\<close> is 0, and \<^verbatim>\<open>totalTaskCount\<close> wraps around.
\<close>

theorem idle_above_worker_count:
  "run add_remove_race config_new \<noteq> None \<and>
   stacks (the (run add_remove_race config_new)) 1 = [worker_idle] \<and>
   idleCount (impl (the (run add_remove_race config_new))) = 1 \<and>
   workerCount (impl (the (run add_remove_race config_new))) = 0 \<and>
   totalTaskCount (impl (the (run add_remove_race config_new))) = - 1"
  by code_simp

text \<open>
  C9, as amended. After any run from a new manager, the state is one of \<^verbatim>\<open>UNINITIALIZED\<close>,
  \<^verbatim>\<open>STARTED\<close>, \<^verbatim>\<open>JOINING\<close> and \<^verbatim>\<open>STOPPED\<close>, so that \<^verbatim>\<open>start\<close> does not wait in its loop. What
  a thread does next moves the state in three ways only. \<^verbatim>\<open>start\<close> takes it from
  \<^verbatim>\<open>UNINITIALIZED\<close> to \<^verbatim>\<open>STARTED\<close> when a thread factory is set, and leaves it otherwise.
  \<^verbatim>\<open>stop\<close> leaves it \<^verbatim>\<open>STOPPED\<close> when it returns and \<^verbatim>\<open>JOINING\<close> when it has to wait for the
  workers or throws, which it does from \<^verbatim>\<open>UNINITIALIZED\<close> as well as from \<^verbatim>\<open>STARTED\<close>. A
  \<^verbatim>\<open>stop\<close> that comes back from its wait sets it to \<^verbatim>\<open>STOPPED\<close> once the workers are gone.
  So the state only moves forward in the order of the four states, \<^verbatim>\<open>STARTED\<close> may be
  skipped, and \<^verbatim>\<open>STOPPED\<close> is kept.
\<close>

theorem state_machine:
  assumes "run evs config_new = Some c"
  shows "traversed (state (impl c)) \<and>
         fst (start (impl c)) \<noteq> blocks \<and>
         (\<forall>t now c'. exec t now (Call Start) c = Some c' \<longrightarrow>
            state (impl c') =
              (if state (impl c) = UNINITIALIZED \<and> threadFactory (impl c) \<noteq> None then STARTED
               else state (impl c))) \<and>
         (\<forall>t now c'. exec t now (Call Stop) c = Some c' \<longrightarrow>
            state (impl c') = (if fst (stop (impl c)) = returns () then STOPPED else JOINING) \<and>
            (state (impl c') = JOINING \<longrightarrow>
               state (impl c) = UNINITIALIZED \<or> state (impl c) = STARTED)) \<and>
         (\<forall>t now timedout c'. exec t now (Wake timedout) c = Some c' \<longrightarrow>
            state (impl c') =
              (if (\<exists>below. stacks c t = in_call Stop # below) \<and>
                  fst (removeWorkers_loop (impl c)) = returns ()
               then STOPPED else state (impl c))) \<and>
         (\<forall>t now ev c'. exec t now ev c = Some c' \<longrightarrow>
            ev = Call Start \<or> ev = Call Stop \<or> (\<exists>timedout. ev = Wake timedout) \<or>
            state (impl c') = state (impl c)) \<and>
         (\<forall>t now ev c'. exec t now ev c = Some c' \<longrightarrow>
            STATE_value (state (impl c)) \<le> STATE_value (state (impl c')) \<and>
            (state (impl c) = STOPPED \<longrightarrow> state (impl c') = STOPPED))"
proof -
  have tr: "traversed (state (impl c))"
    using traversed_run [OF assms] by (simp add: traversed_def config_new_def Impl_new_def)
  have st: "fst (start (impl c)) \<noteq> blocks"
    using tr by (auto simp: traversed_def start_def start_loop_def)
  have a: "state (impl c') =
      (if state (impl c) = UNINITIALIZED \<and> threadFactory (impl c) \<noteq> None then STARTED
       else state (impl c))"
    if "exec t now (Call Start) c = Some c'" for t now c'
    using impl_exec_Call [OF that] state_start [of "impl c"] by simp
  have b: "state (impl c') = (if fst (stop (impl c)) = returns () then STOPPED else JOINING) \<and>
      (state (impl c') = JOINING \<longrightarrow> state (impl c) = UNINITIALIZED \<or> state (impl c) = STARTED)"
    if "exec t now (Call Stop) c = Some c'" for t now c'
  proof -
    have i: "impl c' = snd (stop (impl c))"
      using impl_exec_Call [OF that] by simp
    have "state (impl c') = JOINING \<longrightarrow> state (impl c) = UNINITIALIZED \<or> state (impl c) = STARTED"
      using tr stop_when_stopping [of "impl c"] i by (auto simp: traversed_def)
    with i state_stop [of "impl c"] show ?thesis by simp
  qed
  have w: "state (impl c') =
      (if (\<exists>below. stacks c t = in_call Stop # below) \<and>
          fst (removeWorkers_loop (impl c)) = returns ()
       then STOPPED else state (impl c))"
    if "exec t now (Wake timedout) c = Some c'" for t now timedout c'
    using impl_exec_Wake [OF that]
  proof
    assume "\<exists>cl below. stacks c t = in_call cl # below \<and>
        impl c' = snd (resume_call now timedout cl (impl c))"
    then obtain cl below where s: "stacks c t = in_call cl # below"
      and i: "impl c' = snd (resume_call now timedout cl (impl c))" by blast
    show ?thesis
    proof (cases "cl = Stop")
      case True
      with s i state_resume_stop [of now timedout "impl c"] show ?thesis by simp
    next
      case False
      with s i state_resume_call [of cl now timedout "impl c"] show ?thesis by simp
    qed
  next
    assume "(\<forall>cl below. stacks c t \<noteq> in_call cl # below) \<and> state (impl c') = state (impl c)"
    then show ?thesis by simp
  qed
  have o: "ev = Call Start \<or> ev = Call Stop \<or> (\<exists>timedout. ev = Wake timedout) \<or>
      state (impl c') = state (impl c)"
    if "exec t now ev c = Some c'" for t now ev c'
    using state_exec_other [OF that] by blast
  have m: "STATE_value (state (impl c)) \<le> STATE_value (state (impl c')) \<and>
        (state (impl c) = STOPPED \<longrightarrow> state (impl c') = STOPPED)"
    if "exec t now ev c = Some c'" for t now ev c'
    using advances_exec [OF that] tr by (auto simp: traversed_def advances_def)
  from tr st a b w o m show ?thesis by blast
qed

theorem state_machine_witness:
  "run before_start config_new \<noteq> None \<and>
   state (impl (the (run before_start config_new))) = UNINITIALIZED \<and>
   map_option (\<lambda>c. state (impl c))
     (exec 100 0 (Call Start) (the (run before_start config_new))) = Some STARTED \<and>
   run start_then_stop config_new \<noteq> None \<and>
   state (impl (the (run start_then_stop config_new))) = JOINING \<and>
   fst (start (impl (the (run start_then_stop config_new)))) = returns () \<and>
   map_option (\<lambda>c. state (impl c))
     (exec 1 6 (Wake False) (the (run start_then_stop config_new))) = Some JOINING \<and>
   run workers_gone config_new \<noteq> None \<and>
   state (impl (the (run workers_gone config_new))) = JOINING \<and>
   map_option (\<lambda>c. state (impl c))
     (exec 100 7 (Wake False) (the (run workers_gone config_new))) = Some STOPPED"
proof -
  have r0: "run before_start config_new \<noteq> None"
    by code_simp
  have s0: "state (impl (the (run before_start config_new))) = UNINITIALIZED"
    by code_simp
  have e0: "map_option (\<lambda>c. state (impl c))
      (exec 100 0 (Call Start) (the (run before_start config_new))) = Some STARTED"
    by code_simp
  have r: "run start_then_stop config_new \<noteq> None"
    by code_simp
  have s: "state (impl (the (run start_then_stop config_new))) = JOINING"
    by code_simp
  have e: "map_option (\<lambda>c. state (impl c))
      (exec 1 6 (Wake False) (the (run start_then_stop config_new))) = Some JOINING"
    by code_simp
  have f: "fst (start (impl (the (run start_then_stop config_new)))) = returns ()"
    by code_simp
  have r2: "run workers_gone config_new \<noteq> None"
    by code_simp
  have s2: "state (impl (the (run workers_gone config_new))) = JOINING"
    by code_simp
  have e2: "map_option (\<lambda>c. state (impl c))
      (exec 100 7 (Wake False) (the (run workers_gone config_new))) = Some STOPPED"
    by code_simp
  from r0 have a0: "run before_start config_new = Some (the (run before_start config_new))"
    by simp
  from r have a1: "run start_then_stop config_new = Some (the (run start_then_stop config_new))"
    by simp
  from r2 have a2: "run workers_gone config_new = Some (the (run workers_gone config_new))"
    by simp
  from state_machine [OF a0] state_machine [OF a1] state_machine [OF a2]
    r0 s0 e0 r s e f r2 s2 e2
  show ?thesis by simp
qed

text \<open>
  C9 as stated fails: it has every manager go from \<^verbatim>\<open>UNINITIALIZED\<close> to \<^verbatim>\<open>STARTED\<close> before
  it is \<^verbatim>\<open>JOINING\<close>. In the run \<open>stop_unstarted\<close> a manager is given a worker and stopped
  without having been started: it is \<^verbatim>\<open>UNINITIALIZED\<close> after each of the first four
  steps and \<^verbatim>\<open>JOINING\<close> after the fifth, while \<^verbatim>\<open>stop\<close> waits for the worker. And \<^verbatim>\<open>stop\<close>
  on a new manager leaves it \<^verbatim>\<open>STOPPED\<close> at once.
\<close>

theorem joining_without_started:
  "state (impl config_new) = UNINITIALIZED \<and>
   state (impl (the (run (take 1 stop_unstarted) config_new))) = UNINITIALIZED \<and>
   state (impl (the (run (take 2 stop_unstarted) config_new))) = UNINITIALIZED \<and>
   state (impl (the (run (take 3 stop_unstarted) config_new))) = UNINITIALIZED \<and>
   state (impl (the (run (take 4 stop_unstarted) config_new))) = UNINITIALIZED \<and>
   length stop_unstarted = 5 \<and>
   run stop_unstarted config_new \<noteq> None \<and>
   state (impl (the (run stop_unstarted config_new))) = JOINING \<and>
   stacks (the (run stop_unstarted config_new)) 100 = [in_call Stop] \<and>
   map_option (\<lambda>c. state (impl c)) (exec 100 0 (Call Stop) config_new) = Some STOPPED"
  by code_simp

text \<open>
  C10. On a started manager with no cap on its queue, \<^verbatim>\<open>add\<close>, once its guard holds the
  mutex, returns without an exception for every timeout and every caller, and all it
  does is to put the new task at the end of the queue and to notify \<^verbatim>\<open>monitor_\<close> when a
  worker is idle: no task leaves the queue and nothing is counted as expired.
\<close>

theorem add_unbounded:
  assumes "pendingTaskCountMax s = 0" and "state s = STARTED" and "Guard m timeout = Some (True, d)"
  shows "add v timeout expiration m caller now ws s =
           Some (Inr (), (if 0 < idleCount s then emit (Notify monitor) else id)
                   (s\<lparr>tasks := tasks s @ [Task_new v expiration now]\<rparr>))"
  using assms
  by (auto simp: add_def add_locked_def seg_outcome_def at_cap_def add_push_def Let_def)

theorem add_unbounded_witness:
  "pendingTaskCountMax example_started = 0 \<and>
   Guard (Some 0) (- 1) = Some (True, 0) \<and>
   add 3 (- 1) 0 (Some 0) 9 100 [] example_started =
     Some (Inr (), example_started\<lparr>tasks := [Task_new 3 0 100]\<rparr>)"
  using add_unbounded [of example_started "Some 0" "- 1" 0 3 0 9 100 "[]"]
  by (simp add: Guard_def Mutex_trylock_def example_started_def Impl_new_def)

end
